theory Spec2Isabelle
  imports Complex_Main "HOL-Library.DAList" "HOL-Library.Sublist" "HOL-Library.Multiset" "HOL-Library.Word"
begin

section \<open>Node (internal/node/node.go)\<close>

text \<open>
  A node is a struct guarded by one reader-writer lock; every method takes the lock for
  its whole body, so each method is one atomic step on the struct and is modelled as a
  function from the struct to its result and the updated struct.

  \<^item> \<open>Status\<close> is the Go enumeration \<open>StatusStopped | StatusRunning | StatusSuspended\<close>.
  \<^item> \<open>data\<close> is a Go map from string keys to byte slices: a duplicate-free association list
    (\<open>alist\<close>), whose order stands for the unspecified iteration order of the Go map.
  \<^item> a byte slice is \<open>8 word list option\<close>; \<open>None\<close> is the \<open>nil\<close> slice.
  \<^item> \<open>delay\<close> is a \<open>time.Duration\<close> (nanoseconds).
  \<^item> an \<open>error\<close> is the message built by \<open>fmt.Errorf\<close>; \<open>None\<close> is the \<open>nil\<close> error.
  \<^item> the fields \<open>ctx\<close> and \<open>cancel\<close>, the calls of the logger and the sleep of
    \<open>applyDelay\<close> have no effect on the fields modelled here and are left out.
\<close>

datatype Status = StatusStopped | StatusRunning | StatusSuspended

type_synonym bytes = "8 word list option"

type_synonym error = string

record Node =
  id :: string
  status :: Status
  delay :: int
  data :: "(string, bytes) alist"

definition node_New :: "string \<Rightarrow> Node" where
  "node_New i = \<lparr>id = i, status = StatusStopped, delay = 0, data = DAList.empty\<rparr>"

definition ID :: "Node \<Rightarrow> string" where
  "ID n = id n"

definition Start :: "Node \<Rightarrow> error option \<times> Node" where
  "Start n =
     (if status n = StatusRunning then (Some (''node '' @ id n @ '' is already running''), n)
      else (None, n\<lparr>status := StatusRunning\<rparr>))"

definition Stop :: "Node \<Rightarrow> error option \<times> Node" where
  "Stop n =
     (if status n = StatusStopped then (Some (''node '' @ id n @ '' is already stopped''), n)
      else (None, n\<lparr>status := StatusStopped\<rparr>))"

definition Suspend :: "Node \<Rightarrow> error option \<times> Node" where
  "Suspend n =
     (if status n \<noteq> StatusRunning then (Some (''node '' @ id n @ '' is not running''), n)
      else (None, n\<lparr>status := StatusSuspended\<rparr>))"

definition Resume :: "Node \<Rightarrow> error option \<times> Node" where
  "Resume n =
     (if status n \<noteq> StatusSuspended then (Some (''node '' @ id n @ '' is not suspended''), n)
      else (None, n\<lparr>status := StatusRunning\<rparr>))"

definition SetDelay :: "Node \<Rightarrow> int \<Rightarrow> Node" where
  "SetDelay n d = n\<lparr>delay := d\<rparr>"

definition Delay :: "Node \<Rightarrow> int" where
  "Delay n = delay n"

text \<open>\<open>value, exists := n.data[key]\<close>: a missing key reads as \<open>(nil, false)\<close>.\<close>

definition Get :: "Node \<Rightarrow> string \<Rightarrow> bytes \<times> bool" where
  "Get n key =
     (if status n \<noteq> StatusRunning then (None, False)
      else (case DAList.lookup (data n) key of
              None \<Rightarrow> (None, False)
            | Some v \<Rightarrow> (v, True)))"

definition Set :: "Node \<Rightarrow> string \<Rightarrow> bytes \<Rightarrow> error option \<times> Node" where
  "Set n key v =
     (if status n \<noteq> StatusRunning then (Some (''node '' @ id n @ '' is not running''), n)
      else (None, n\<lparr>data := DAList.update key v (data n)\<rparr>))"

definition Delete :: "Node \<Rightarrow> string \<Rightarrow> error option \<times> Node" where
  "Delete n key =
     (if status n \<noteq> StatusRunning then (Some (''node '' @ id n @ '' is not running''), n)
      else (None, n\<lparr>data := DAList.delete key (data n)\<rparr>))"

definition Keys :: "Node \<Rightarrow> string list" where
  "Keys n = map fst (DAList.impl_of (data n))"

definition Size :: "Node \<Rightarrow> nat" where
  "Size n = length (DAList.impl_of (data n))"

text \<open>
  The calls a client can make on a node, and their effect on the struct, for statements
  about what may happen between two calls.
\<close>

datatype Call =
    CallStart | CallStop | CallSuspend | CallResume
  | CallSetDelay int | CallGet string | CallSet string bytes | CallDelete string
  | CallKeys | CallSize

fun call :: "Node \<Rightarrow> Call \<Rightarrow> Node" where
  "call n CallStart = snd (Start n)"
| "call n CallStop = snd (Stop n)"
| "call n CallSuspend = snd (Suspend n)"
| "call n CallResume = snd (Resume n)"
| "call n (CallSetDelay d) = SetDelay n d"
| "call n (CallGet k) = n"
| "call n (CallSet k v) = snd (Set n k v)"
| "call n (CallDelete k) = snd (Delete n k)"
| "call n CallKeys = n"
| "call n CallSize = n"

fun writes :: "string \<Rightarrow> Call \<Rightarrow> bool" where
  "writes k (CallSet k' v) = (k = k')"
| "writes k (CallDelete k') = (k = k')"
| "writes k c = False"

definition calls :: "Node \<Rightarrow> Call list \<Rightarrow> Node" where
  "calls n cs = foldl call n cs"

section \<open>Cluster (internal/cluster)\<close>

text \<open>
  The cluster keeps pointers to nodes that the injector, the supervisor and the clients
  hold as well, so nodes live in an explicit store: a \<open>ref\<close> is the address of a node
  and the \<open>heap\<close> gives the struct at every address. The registry is the Go map from node
  identity to node pointer, again a duplicate-free association list in an unspecified
  order. A method that calls into a node takes the heap and, when it writes, returns it.
\<close>

type_synonym ref = nat

type_synonym heap = "ref \<Rightarrow> Node"

record Cluster =
  nodes :: "(string, ref) alist"

definition cluster_New :: "Cluster" where
  "cluster_New = \<lparr>nodes = DAList.empty\<rparr>"

definition Cluster_AddNode :: "heap \<Rightarrow> Cluster \<Rightarrow> ref \<Rightarrow> error option \<times> Cluster" where
  "Cluster_AddNode h c n =
     (case DAList.lookup (nodes c) (ID (h n)) of
        Some other \<Rightarrow> (Some (''node '' @ ID (h n) @ '' already exists in cluster''), c)
      | None \<Rightarrow> (None, c\<lparr>nodes := DAList.update (ID (h n)) n (nodes c)\<rparr>))"

definition Cluster_RemoveNode :: "heap \<Rightarrow> Cluster \<Rightarrow> string \<Rightarrow> error option \<times> heap \<times> Cluster" where
  "Cluster_RemoveNode h c nodeID =
     (case DAList.lookup (nodes c) nodeID of
        None \<Rightarrow> (Some (''node '' @ nodeID @ '' not found in cluster''), h, c)
      | Some n \<Rightarrow>
          (let h' = (if status (h n) = StatusRunning then h(n := snd (Stop (h n))) else h)
           in (None, h', c\<lparr>nodes := DAList.delete nodeID (nodes c)\<rparr>)))"

definition Cluster_GetNode :: "Cluster \<Rightarrow> string \<Rightarrow> ref option \<times> bool" where
  "Cluster_GetNode c nodeID =
     (case DAList.lookup (nodes c) nodeID of
        None \<Rightarrow> (None, False)
      | Some n \<Rightarrow> (Some n, True))"

definition Cluster_Nodes :: "Cluster \<Rightarrow> ref list" where
  "Cluster_Nodes c = map snd (DAList.impl_of (nodes c))"

definition Cluster_Size :: "Cluster \<Rightarrow> nat" where
  "Cluster_Size c = length (DAList.impl_of (nodes c))"

text \<open>Both counting methods run \<open>count := 0; for _, n := range c.nodes { if ... { count++ } }\<close>.\<close>

definition Cluster_RunningCount :: "heap \<Rightarrow> Cluster \<Rightarrow> nat" where
  "Cluster_RunningCount h c =
     foldl (\<lambda>count n. if status (h n) = StatusRunning then count + 1 else count)
       0 (map snd (DAList.impl_of (nodes c)))"

definition Cluster_StoppedCount :: "heap \<Rightarrow> Cluster \<Rightarrow> nat" where
  "Cluster_StoppedCount h c =
     foldl (\<lambda>count n. if status (h n) = StatusStopped then count + 1 else count)
       0 (map snd (DAList.impl_of (nodes c)))"

section \<open>Metrics (package metrics)\<close>

text \<open>
  The four atomic counters and \<open>windowRequests\<close> are \<open>uint64\<close>: 64-bit words, whose
  addition wraps. A latency is a \<open>time.Duration\<close>, read as the integer number of
  nanoseconds it holds; \<open>uint64(latency.Nanoseconds())\<close> is \<open>word_of_int\<close>. Times are
  integers. \<open>latencies\<close> is the slice of samples, \<open>maxLatencySamples\<close> its capacity.
\<close>

record Metrics =
  totalRequests :: "64 word"
  successRequests :: "64 word"
  failedRequests :: "64 word"
  totalLatencyNs :: "64 word"
  startTime :: int
  lastResetTime :: int
  windowRequests :: "64 word"
  latencies :: "int list"
  maxLatencySamples :: int

definition metrics_New :: "int \<Rightarrow> Metrics" where
  "metrics_New now =
     \<lparr>totalRequests = 0, successRequests = 0, failedRequests = 0, totalLatencyNs = 0,
      startTime = now, lastResetTime = now, windowRequests = 0,
      latencies = [], maxLatencySamples = 1000\<rparr>"

definition RecordSuccess :: "Metrics \<Rightarrow> int \<Rightarrow> Metrics" where
  "RecordSuccess m latency =
     m\<lparr>totalRequests := totalRequests m + 1,
       successRequests := successRequests m + 1,
       totalLatencyNs := totalLatencyNs m + word_of_int latency,
       windowRequests := windowRequests m + 1,
       latencies := (if int (length (latencies m)) < maxLatencySamples m
                     then latencies m @ [latency] else latencies m)\<rparr>"

definition RecordFailure :: "Metrics \<Rightarrow> int \<Rightarrow> Metrics" where
  "RecordFailure m latency =
     m\<lparr>totalRequests := totalRequests m + 1,
       failedRequests := failedRequests m + 1,
       totalLatencyNs := totalLatencyNs m + word_of_int latency,
       windowRequests := windowRequests m + 1\<rparr>"

text \<open>
  \<open>idx := int(float64(len(sorted)) * 0.99)\<close>. The double nearest to 0.99 is below 0.99
  by less than 1e-17, so for every length below 2^40 (the reservoir holds at most 1000
  samples) the rounded product truncates to
  the integer quotient \<open>99 * len div 100\<close> (where \<open>0.99 * len\<close> is an integer the product
  rounds to it, elsewhere it is at least \<open>1/100\<close> away from an integer); the index is
  computed so. \<open>sort.Slice\<close> with \<open>sorted[i] < sorted[j]\<close> on durations is \<open>sort\<close>.
\<close>

definition P99Latency :: "Metrics \<Rightarrow> int" where
  "P99Latency m =
     (if length (latencies m) = 0 then 0
      else (let sorted = sort (latencies m);
                idx = (99 * length sorted) div 100;
                idx' = (if idx \<ge> length sorted then length sorted - 1 else idx)
            in sorted ! idx'))"

definition Reset :: "Metrics \<Rightarrow> int \<Rightarrow> Metrics" where
  "Reset m now = m\<lparr>windowRequests := 0, lastResetTime := now, latencies := []\<rparr>"

text \<open>A request outcome reported to the metrics, and a run of such reports.\<close>

datatype Outcome = Succeeded int | Failed int

fun record_outcome :: "Metrics \<Rightarrow> Outcome \<Rightarrow> Metrics" where
  "record_outcome m (Succeeded latency) = RecordSuccess m latency"
| "record_outcome m (Failed latency) = RecordFailure m latency"

definition record_all :: "Metrics \<Rightarrow> Outcome list \<Rightarrow> Metrics" where
  "record_all m os = foldl record_outcome m os"

text \<open>
  The spec's words for the P99 estimate: the reservoir holds the success latencies in
  arrival order up to its capacity of 1000, later ones are dropped; the estimate is 0
  for an empty reservoir, else the sample at index \<open>\<lfloor>0.99 \<times> N\<rfloor>\<close>, clamped to \<open>N - 1\<close>, of
  the reservoir sorted ascending.
\<close>

fun success_latencies :: "Outcome list \<Rightarrow> int list" where
  "success_latencies [] = []"
| "success_latencies (Succeeded latency # os) = latency # success_latencies os"
| "success_latencies (Failed latency # os) = success_latencies os"

definition spec_reservoir :: "Outcome list \<Rightarrow> int list" where
  "spec_reservoir os = take 1000 (success_latencies os)"

definition spec_P99 :: "int list \<Rightarrow> int" where
  "spec_P99 reservoir =
     (if reservoir = [] then 0
      else sort reservoir ! min (nat \<lfloor>(99 / 100 :: real) * real (length reservoir)\<rfloor>)
                                 (length reservoir - 1))"

section \<open>Chaos injector (internal/chaos/chaos.go)\<close>

text \<open>
  \<open>AttackType\<close> is the Go enumeration. \<open>attackCount\<close> and the values of \<open>attackByType\<close>
  are \<open>uint64\<close> counters that grow by one at a time; their wrap-around at \<open>2^64\<close> is out of
  reach of any run and they are natural numbers here. \<open>attackByType\<close> is a Go map read
  and written only by \<open>attackByType[t]++\<close>, where a missing key reads as 0: a function.
  \<open>suspendedIDs\<close> is a Go map that \<open>checkAndResume\<close> iterates: an association list.
  Times are integers (nanoseconds), the zero \<open>time.Time\<close> is 0, and \<open>Sub\<close> saturates as
  \<open>time.Time.Sub\<close> does. Every \<open>time.Now()\<close> of one tick reads the time of the tick.

  The monkey holds a pointer to the cluster; the registry it points to is the argument
  \<open>c\<close>. Events are published after the state change and change nothing modelled here, as
  the logger; both are left out.

  \<open>rand.Shuffle(n, swap)\<close> of the Go library runs \<open>i\<close> from \<open>n - 1\<close> down to 1 and swaps
  positions \<open>i\<close> and \<open>j = rand.Intn(i + 1)\<close>; the random source is the function \<open>rnd\<close>,
  whose value at \<open>i\<close>, reduced into range, is the draw of round \<open>i\<close>.
\<close>

datatype AttackType = AttackKill | AttackSuspend | AttackDelay

record chaos_Config =
  Interval :: int
  TargetCount :: int
  AttackTypes :: "AttackType list"
  DelayDuration :: int
  SuspendTime :: int

record Monkey =
  config :: chaos_Config
  attackCount :: nat
  attackByType :: "AttackType \<Rightarrow> nat"
  lastAttack :: int
  suspendedIDs :: "(string, int) alist"

definition Sub :: "int \<Rightarrow> int \<Rightarrow> int" where
  "Sub t u = max (- (2 ^ 63)) (min (2 ^ 63 - 1) (t - u))"

definition chaos_New :: "chaos_Config \<Rightarrow> Monkey" where
  "chaos_New cfg =
     \<lparr>config = cfg, attackCount = 0, attackByType = (\<lambda>t. 0), lastAttack = 0,
      suspendedIDs = DAList.empty\<rparr>"

definition swap :: "'a list \<Rightarrow> nat \<Rightarrow> nat \<Rightarrow> 'a list" where
  "swap xs i j = xs[i := xs ! j, j := xs ! i]"

fun Shuffle_from :: "nat \<Rightarrow> (nat \<Rightarrow> nat) \<Rightarrow> 'a list \<Rightarrow> 'a list" where
  "Shuffle_from 0 rnd xs = xs"
| "Shuffle_from (Suc i) rnd xs = Shuffle_from i rnd (swap xs (Suc i) (rnd (Suc i) mod (Suc i + 1)))"

definition Shuffle :: "(nat \<Rightarrow> nat) \<Rightarrow> 'a list \<Rightarrow> 'a list" where
  "Shuffle rnd xs = Shuffle_from (length xs - 1) rnd xs"

text \<open>
  \<open>running[:count]\<close> panics for a negative \<open>count\<close> (slice bounds out of range): the result
  \<open>None\<close>. A \<open>nil\<close> slice and an empty one are both \<open>[]\<close>.
\<close>

definition selectTargets :: "heap \<Rightarrow> Cluster \<Rightarrow> chaos_Config \<Rightarrow> (nat \<Rightarrow> nat) \<Rightarrow> ref list option" where
  "selectTargets h c cfg rnd =
     (let nodes = Cluster_Nodes c in
      if length nodes = 0 then Some []
      else
        (let running = filter (\<lambda>n. status (h n) = StatusRunning) nodes in
         if length running = 0 then Some []
         else
           (let count = (if TargetCount cfg > int (length running) then int (length running)
                         else TargetCount cfg);
                shuffled = Shuffle rnd running
            in if count < 0 then None else Some (take (nat count) shuffled))))"

definition selectAttackType :: "chaos_Config \<Rightarrow> nat \<Rightarrow> AttackType" where
  "selectAttackType cfg r =
     (if length (AttackTypes cfg) = 0 then AttackKill
      else AttackTypes cfg ! (r mod length (AttackTypes cfg)))"

definition attackKill :: "Monkey \<Rightarrow> heap \<Rightarrow> ref \<Rightarrow> Monkey \<times> heap" where
  "attackKill m h n =
     (case Stop (h n) of
        (Some err, n') \<Rightarrow> (m, h)
      | (None, n') \<Rightarrow>
          (m\<lparr>attackByType := (attackByType m)(AttackKill := attackByType m AttackKill + 1)\<rparr>,
           h(n := n')))"

definition attackSuspend :: "Monkey \<Rightarrow> heap \<Rightarrow> ref \<Rightarrow> int \<Rightarrow> Monkey \<times> heap" where
  "attackSuspend m h n now =
     (case Suspend (h n) of
        (Some err, n') \<Rightarrow> (m, h)
      | (None, n') \<Rightarrow>
          (m\<lparr>suspendedIDs := DAList.update (ID n') now (suspendedIDs m),
             attackByType := (attackByType m)(AttackSuspend := attackByType m AttackSuspend + 1)\<rparr>,
           h(n := n')))"

definition attackDelay :: "Monkey \<Rightarrow> heap \<Rightarrow> ref \<Rightarrow> Monkey \<times> heap" where
  "attackDelay m h n =
     (m\<lparr>attackByType := (attackByType m)(AttackDelay := attackByType m AttackDelay + 1)\<rparr>,
      h(n := SetDelay (h n) (DelayDuration (config m))))"

definition executeAttack :: "Monkey \<Rightarrow> heap \<Rightarrow> ref \<Rightarrow> AttackType \<Rightarrow> int \<Rightarrow> Monkey \<times> heap" where
  "executeAttack m h n attackType now =
     (case attackType of
        AttackKill \<Rightarrow> attackKill m h n
      | AttackSuspend \<Rightarrow> attackSuspend m h n now
      | AttackDelay \<Rightarrow> attackDelay m h n)"

fun executeAttacks :: "Monkey \<Rightarrow> heap \<Rightarrow> ref list \<Rightarrow> AttackType \<Rightarrow> int \<Rightarrow> Monkey \<times> heap" where
  "executeAttacks m h [] attackType now = (m, h)"
| "executeAttacks m h (n # targets) attackType now =
     (case executeAttack m h n attackType now of
        (m', h') \<Rightarrow> executeAttacks m' h' targets attackType now)"

definition attack :: "Monkey \<Rightarrow> heap \<Rightarrow> Cluster \<Rightarrow> (nat \<Rightarrow> nat) \<Rightarrow> nat \<Rightarrow> int \<Rightarrow> (Monkey \<times> heap) option" where
  "attack m h c rnd r now =
     (case selectTargets h c (config m) rnd of
        None \<Rightarrow> None
      | Some targets \<Rightarrow>
          if length targets = 0 then Some (m, h)
          else
            (case executeAttacks m h targets (selectAttackType (config m) r) now of
               (m', h') \<Rightarrow> Some (m'\<lparr>attackCount := attackCount m' + 1, lastAttack := now\<rparr>, h')))"

text \<open>
  \<open>checkAndResume\<close> ranges over \<open>suspendedIDs\<close> and deletes the entries it has handled,
  which Go allows during the iteration.
\<close>

fun resume_entries :: "Monkey \<Rightarrow> heap \<Rightarrow> Cluster \<Rightarrow> int \<Rightarrow> (string \<times> int) list \<Rightarrow> Monkey \<times> heap" where
  "resume_entries m h c now [] = (m, h)"
| "resume_entries m h c now ((nodeID, suspendTime) # entries) =
     (if Sub now suspendTime \<ge> SuspendTime (config m) then
        (let h' = (case Cluster_GetNode c nodeID of
                     (Some n, True) \<Rightarrow> (case Resume (h n) of
                                          (None, n') \<Rightarrow> h(n := n')
                                        | (Some err, n') \<Rightarrow> h)
                   | other \<Rightarrow> h)
         in resume_entries (m\<lparr>suspendedIDs := DAList.delete nodeID (suspendedIDs m)\<rparr>) h' c now entries)
      else resume_entries m h c now entries)"

definition checkAndResume :: "Monkey \<Rightarrow> heap \<Rightarrow> Cluster \<Rightarrow> int \<Rightarrow> Monkey \<times> heap" where
  "checkAndResume m h c now = resume_entries m h c now (DAList.impl_of (suspendedIDs m))"

definition Monkey_AttackCount :: "Monkey \<Rightarrow> nat" where
  "Monkey_AttackCount m = attackCount m"

text \<open>
  \<open>Stats\<close> returns \<open>attackCount\<close> as \<open>TotalAttacks\<close> and copies \<open>attackByType\<close> into
  \<open>ByType\<close> under the names of the attack types; \<open>sumByType\<close> is the sum of its values.
\<close>

definition sumByType :: "Monkey \<Rightarrow> nat" where
  "sumByType m = attackByType m AttackKill + attackByType m AttackSuspend + attackByType m AttackDelay"

text \<open>
  What happens to an injector over time: its attack loop ticks, its resume loop ticks,
  and between the ticks the rest of the program (clients, the supervisor, whoever holds
  the cluster) changes nodes and registry in any way, here by replacing both.
\<close>

datatype MonkeyEvent =
    AttackTick "nat \<Rightarrow> nat" nat int
  | ResumeTick int
  | MonkeyWorld heap Cluster

fun monkey_step :: "Monkey \<times> heap \<times> Cluster \<Rightarrow> MonkeyEvent \<Rightarrow> (Monkey \<times> heap \<times> Cluster) option" where
  "monkey_step (m, h, c) (AttackTick rnd r now) =
     (case attack m h c rnd r now of None \<Rightarrow> None | Some (m', h') \<Rightarrow> Some (m', h', c))"
| "monkey_step (m, h, c) (ResumeTick now) =
     (case checkAndResume m h c now of (m', h') \<Rightarrow> Some (m', h', c))"
| "monkey_step (m, h, c) (MonkeyWorld h' c') = Some (m, h', c')"

fun monkey_run :: "Monkey \<times> heap \<times> Cluster \<Rightarrow> MonkeyEvent list \<Rightarrow> (Monkey \<times> heap \<times> Cluster) option" where
  "monkey_run s [] = Some s"
| "monkey_run s (e # es) = (case monkey_step s e of None \<Rightarrow> None | Some s' \<Rightarrow> monkey_run s' es)"

text \<open>The relation between the counters that every tick keeps.\<close>

definition counters_agree :: "Monkey \<Rightarrow> bool" where
  "counters_agree m =
     (attackCount m \<le> sumByType m
      \<and> (if TargetCount (config m) \<le> 1 then attackCount m = sumByType m else True))"

section \<open>Recovery supervisor (package recovery)\<close>

text \<open>
  \<open>nodeStates\<close> is a Go map from node identity to a pointer to the tracking record of that
  node, which only the manager reaches: a map to the record itself, and the functions
  that the source hands the pointer \<open>state\<close> get the key \<open>nodeID\<close> under which it is kept
  and the record \<open>state\<close> read there. The three recovery counters are \<open>uint64\<close> counters
  that grow by one at a time and are natural numbers here; \<open>CurrentlyFailed\<close> and
  \<open>RetryCount\<close> are Go \<open>int\<close>s. \<open>checkNode\<close> reads the status of the node once and the
  handlers run before anything else can touch the node: a tick is one step.
\<close>

record recovery_Config =
  HealthCheckInterval :: int
  RecoveryDelay :: int
  MaxRetries :: int
  AutoRestart :: bool
  AutoResume :: bool
  ClearDelay :: bool

record NodeState =
  LastSeen :: int
  FailedAt :: int
  RetryCount :: int
  IsRecovered :: bool

record recovery_Stats =
  TotalRecoveries :: nat
  SuccessRecoveries :: nat
  FailedRecoveries :: nat
  CurrentlyFailed :: int

record Manager =
  mconfig :: recovery_Config
  nodeStates :: "string \<rightharpoonup> NodeState"
  stats :: recovery_Stats

definition recovery_DefaultConfig :: "recovery_Config" where
  "recovery_DefaultConfig =
     \<lparr>HealthCheckInterval = 1000000000, RecoveryDelay = 2000000000, MaxRetries = 3,
      AutoRestart = True, AutoResume = True, ClearDelay = True\<rparr>"

definition recovery_New :: "recovery_Config \<Rightarrow> Manager" where
  "recovery_New cfg =
     \<lparr>mconfig = cfg, nodeStates = Map.empty,
      stats = \<lparr>TotalRecoveries = 0, SuccessRecoveries = 0, FailedRecoveries = 0,
               CurrentlyFailed = 0\<rparr>\<rparr>"

definition IsZero :: "int \<Rightarrow> bool" where
  "IsZero t = (t = 0)"

definition handleRunningNode :: "Manager \<Rightarrow> heap \<Rightarrow> ref \<Rightarrow> string \<Rightarrow> NodeState \<Rightarrow> int \<Rightarrow> Manager \<times> heap" where
  "handleRunningNode m h n nodeID state now =
     (let h' = (if ClearDelay (mconfig m) \<and> Delay (h n) > 0 then h(n := SetDelay (h n) 0) else h);
          recovered = (\<not> IsRecovered state \<and> RetryCount state > 0);
          stats' = (if recovered
                    then (stats m)\<lparr>SuccessRecoveries := SuccessRecoveries (stats m) + 1\<rparr>
                    else stats m);
          state' = (if recovered then state\<lparr>IsRecovered := True\<rparr> else state)
      in (m\<lparr>nodeStates := (nodeStates m)(nodeID \<mapsto> state'\<lparr>LastSeen := now, RetryCount := 0,
                                                      IsRecovered := False\<rparr>),
            stats := stats'\<rparr>,
          h'))"

definition handleStoppedNode :: "Manager \<Rightarrow> heap \<Rightarrow> ref \<Rightarrow> string \<Rightarrow> NodeState \<Rightarrow> int \<Rightarrow> Manager \<times> heap" where
  "handleStoppedNode m h n nodeID state now =
     (if \<not> AutoRestart (mconfig m) then (m, h)
      else if IsZero (FailedAt state) then
        (m\<lparr>nodeStates := (nodeStates m)(nodeID \<mapsto> state\<lparr>FailedAt := now\<rparr>),
           stats := (stats m)\<lparr>CurrentlyFailed := CurrentlyFailed (stats m) + 1\<rparr>\<rparr>, h)
      else if Sub now (FailedAt state) < RecoveryDelay (mconfig m) then (m, h)
      else if MaxRetries (mconfig m) > 0 \<and> RetryCount state \<ge> MaxRetries (mconfig m) then (m, h)
      else
        (let state1 = state\<lparr>RetryCount := RetryCount state + 1, FailedAt := now\<rparr>;
             stats1 = (stats m)\<lparr>TotalRecoveries := TotalRecoveries (stats m) + 1\<rparr>
         in case Start (h n) of
              (Some err, n') \<Rightarrow>
                (m\<lparr>nodeStates := (nodeStates m)(nodeID \<mapsto> state1),
                   stats := stats1\<lparr>FailedRecoveries := FailedRecoveries stats1 + 1\<rparr>\<rparr>, h)
            | (None, n') \<Rightarrow>
                (m\<lparr>nodeStates := (nodeStates m)(nodeID \<mapsto> state1\<lparr>FailedAt := 0\<rparr>),
                   stats := stats1\<lparr>CurrentlyFailed := CurrentlyFailed stats1 - 1\<rparr>\<rparr>,
                 h(n := n'))))"

definition handleSuspendedNode :: "Manager \<Rightarrow> heap \<Rightarrow> ref \<Rightarrow> string \<Rightarrow> NodeState \<Rightarrow> int \<Rightarrow> Manager \<times> heap" where
  "handleSuspendedNode m h n nodeID state now =
     (if \<not> AutoResume (mconfig m) then (m, h)
      else if IsZero (FailedAt state) then
        (m\<lparr>nodeStates := (nodeStates m)(nodeID \<mapsto> state\<lparr>FailedAt := now\<rparr>)\<rparr>, h)
      else if Sub now (FailedAt state) < RecoveryDelay (mconfig m) then (m, h)
      else
        (let state1 = state\<lparr>RetryCount := RetryCount state + 1, FailedAt := 0\<rparr>;
             stats1 = (stats m)\<lparr>TotalRecoveries := TotalRecoveries (stats m) + 1\<rparr>
         in case Resume (h n) of
              (Some err, n') \<Rightarrow>
                (m\<lparr>nodeStates := (nodeStates m)(nodeID \<mapsto> state1),
                   stats := stats1\<lparr>FailedRecoveries := FailedRecoveries stats1 + 1\<rparr>\<rparr>, h)
            | (None, n') \<Rightarrow>
                (m\<lparr>nodeStates := (nodeStates m)(nodeID \<mapsto> state1),
                   stats := stats1\<lparr>SuccessRecoveries := SuccessRecoveries stats1 + 1\<rparr>\<rparr>,
                 h(n := n'))))"

definition checkNode :: "Manager \<Rightarrow> heap \<Rightarrow> ref \<Rightarrow> int \<Rightarrow> Manager \<times> heap" where
  "checkNode m h n now =
     (let nodeID = ID (h n);
          st = status (h n);
          state = (case nodeStates m nodeID of
                     Some s \<Rightarrow> s
                   | None \<Rightarrow> \<lparr>LastSeen = now, FailedAt = 0, RetryCount = 0, IsRecovered = False\<rparr>);
          m1 = m\<lparr>nodeStates := (nodeStates m)(nodeID \<mapsto> state)\<rparr>
      in case st of
           StatusRunning \<Rightarrow> handleRunningNode m1 h n nodeID state now
         | StatusStopped \<Rightarrow> handleStoppedNode m1 h n nodeID state now
         | StatusSuspended \<Rightarrow> handleSuspendedNode m1 h n nodeID state now)"

fun checkNodes :: "Manager \<Rightarrow> heap \<Rightarrow> ref list \<Rightarrow> int \<Rightarrow> Manager \<times> heap" where
  "checkNodes m h [] now = (m, h)"
| "checkNodes m h (n # ns) now = (case checkNode m h n now of (m', h') \<Rightarrow> checkNodes m' h' ns now)"

definition checkAndRecover :: "Manager \<Rightarrow> heap \<Rightarrow> Cluster \<Rightarrow> int \<Rightarrow> Manager \<times> heap" where
  "checkAndRecover m h c now = checkNodes m h (Cluster_Nodes c) now"

definition Manager_Stats :: "Manager \<Rightarrow> recovery_Stats" where
  "Manager_Stats m = stats m"

text \<open>
  What happens to a supervisor over time: its health-check loop ticks, and between the
  ticks the rest of the program (the injector, clients) changes nodes and registry in any
  way, here by replacing both.
\<close>

datatype ManagerEvent =
    HealthCheckTick int
  | ManagerWorld heap Cluster

fun manager_step :: "Manager \<times> heap \<times> Cluster \<Rightarrow> ManagerEvent \<Rightarrow> Manager \<times> heap \<times> Cluster" where
  "manager_step (m, h, c) (HealthCheckTick now) =
     (case checkAndRecover m h c now of (m', h') \<Rightarrow> (m', h', c))"
| "manager_step (m, h, c) (ManagerWorld h' c') = (m, h', c')"

definition manager_run :: "Manager \<times> heap \<times> Cluster \<Rightarrow> ManagerEvent list \<Rightarrow> Manager \<times> heap \<times> Cluster" where
  "manager_run s es = foldl manager_step s es"

text \<open>
  The identities with an attempt on record that no tick has yet seen Running, and the
  relation between the counters that every tick keeps when it resumes no node.
\<close>

definition pending :: "(string \<rightharpoonup> NodeState) \<Rightarrow> string set" where
  "pending ns = {k. \<exists>state. ns k = Some state \<and> 0 < RetryCount state}"

definition recoveries_bounded :: "Manager \<Rightarrow> bool" where
  "recoveries_bounded m =
     (finite (dom (nodeStates m))
      \<and> SuccessRecoveries (stats m) + FailedRecoveries (stats m) + card (pending (nodeStates m))
          \<le> TotalRecoveries (stats m))"

section \<open>Example inputs\<close>

text \<open>
  A store in which nothing has been allocated (every address reads as a fresh node without
  identity), the default configuration of the injector, a random source whose every draw
  is 0, and three small worlds: two Running nodes, one Stopped node, one Suspended node,
  each registered in a cluster under its identity.
\<close>

definition no_node :: heap where
  "no_node a = node_New ''''"

definition chaos_DefaultConfig :: "chaos_Config" where
  "chaos_DefaultConfig =
     \<lparr>Interval = 5000000000, TargetCount = 1,
      AttackTypes = [AttackKill, AttackSuspend, AttackDelay],
      DelayDuration = 100000000, SuspendTime = 3000000000\<rparr>"

definition zero_draws :: "nat \<Rightarrow> nat" where
  "zero_draws i = 0"

definition two_running :: heap where
  "two_running = no_node(0 := snd (Start (node_New ''node-1'')), 1 := snd (Start (node_New ''node-2'')))"

definition two_cluster :: Cluster where
  "two_cluster = snd (Cluster_AddNode two_running (snd (Cluster_AddNode two_running cluster_New 0)) 1)"

definition one_stopped :: heap where
  "one_stopped = no_node(0 := node_New ''node-1'')"

definition one_suspended :: heap where
  "one_suspended = no_node(0 := snd (Suspend (snd (Start (node_New ''node-1'')))))"

definition one_cluster :: Cluster where
  "one_cluster = snd (Cluster_AddNode one_stopped cluster_New 0)"

section \<open>Properties of the node\<close>

lemma call_lookup:
  "\<not> writes k c \<Longrightarrow> DAList.lookup (data (call n c)) k = DAList.lookup (data n) k"
  by (cases c)
     (auto simp: Start_def Stop_def Suspend_def Resume_def SetDelay_def Set_def Delete_def)

lemma calls_lookup:
  "\<forall>c \<in> set cs. \<not> writes k c \<Longrightarrow> DAList.lookup (data (calls n cs)) k = DAList.lookup (data n) k"
  unfolding calls_def
  by (induction cs arbitrary: n) (simp_all add: call_lookup)

lemma error_names_node:
  "r = (Some (p @ i @ s), n) \<Longrightarrow> \<exists>e. r = (Some e, n) \<and> sublist i e"
  by auto

text \<open>
  C1 (as amended). \<open>Start\<close> succeeds exactly when the node is not Running (from Stopped
  and from Suspended alike) and then makes it Running; \<open>Stop\<close> succeeds exactly when the
  node is Running or Suspended and then makes it Stopped; a failed transition returns the
  struct unchanged, so the status is unchanged.
\<close>

theorem Start_Stop_transitions:
  "(fst (Start n) = None) = (status n \<noteq> StatusRunning)
   \<and> (fst (Stop n) = None) = (status n = StatusRunning \<or> status n = StatusSuspended)
   \<and> snd (Start n) = (if fst (Start n) = None then n\<lparr>status := StatusRunning\<rparr> else n)
   \<and> snd (Stop n) = (if fst (Stop n) = None then n\<lparr>status := StatusStopped\<rparr> else n)"
  by (cases "status n") (simp_all add: Start_def Stop_def)

text \<open>
  C1 (as stated) fails: a node that was started and then suspended is started again
  without error and is Running afterwards.
\<close>

theorem Start_Suspended_succeeds:
  "status (snd (Suspend (snd (Start (node_New ''node-1''))))) = StatusSuspended
   \<and> fst (Start (snd (Suspend (snd (Start (node_New ''node-1'')))))) = None
   \<and> status (snd (Start (snd (Suspend (snd (Start (node_New ''node-1''))))))) = StatusRunning"
  by (simp add: Start_def Suspend_def node_New_def)

text \<open>
  C5. On a Running node \<open>Set k v\<close> succeeds, and after any further calls among which none
  is a \<open>Set\<close> or a \<open>Delete\<close> of \<open>k\<close>, \<open>Get k\<close> returns \<open>(v, true)\<close> whenever the node is
  Running at that point; \<open>Delete k\<close> succeeds and \<open>Get k\<close> then returns \<open>(nil, false)\<close>.
\<close>

theorem Set_Get_Delete_Get:
  assumes "status n = StatusRunning"
    and "\<forall>c \<in> set cs. \<not> writes k c"
    and "status (calls (snd (Set n k v)) cs) = StatusRunning"
  shows "fst (Set n k v) = None
         \<and> Get (calls (snd (Set n k v)) cs) k = (v, True)
         \<and> fst (Delete n k) = None
         \<and> Get (snd (Delete n k)) k = (None, False)"
proof -
  have "DAList.lookup (data (calls (snd (Set n k v)) cs)) k = DAList.lookup (data (snd (Set n k v))) k"
    using assms(2) by (rule calls_lookup)
  also have "\<dots> = Some v"
    using assms(1) by (simp add: Set_def)
  finally have "Get (calls (snd (Set n k v)) cs) k = (v, True)"
    using assms(3) by (simp add: Get_def)
  moreover have "fst (Set n k v) = None" "fst (Delete n k) = None"
    using assms(1) by (simp_all add: Set_def Delete_def)
  moreover have "Get (snd (Delete n k)) k = (None, False)"
    using assms(1) by (simp add: Delete_def Get_def)
  ultimately show ?thesis by simp
qed

theorem Set_Get_Delete_Get_witness:
  "status (snd (Start (node_New ''node-1''))) = StatusRunning
   \<and> status (calls (snd (Set (snd (Start (node_New ''node-1''))) ''key1'' (Some [1, 2])))
            [CallSet ''key2'' None, CallGet ''key1'', CallSuspend, CallResume, CallDelete ''key2''])
        = StatusRunning
   \<and> Get (calls (snd (Set (snd (Start (node_New ''node-1''))) ''key1'' (Some [1, 2])))
            [CallSet ''key2'' None, CallGet ''key1'', CallSuspend, CallResume, CallDelete ''key2''])
        ''key1'' = (Some [1, 2], True)
   \<and> Get (snd (Delete (snd (Start (node_New ''node-1''))) ''key1'')) ''key1'' = (None, False)"
proof -
  let ?n = "snd (Start (node_New ''node-1''))"
  let ?cs = "[CallSet ''key2'' None, CallGet ''key1'', CallSuspend, CallResume, CallDelete ''key2'']"
  have a: "status ?n = StatusRunning"
    by (simp add: Start_def node_New_def)
  have b: "\<forall>c \<in> set ?cs. \<not> writes ''key1'' c"
    by simp
  have c: "status (calls (snd (Set ?n ''key1'' (Some [1, 2]))) ?cs) = StatusRunning"
    by (simp add: calls_def Start_def Suspend_def Resume_def Set_def Delete_def node_New_def)
  show ?thesis
    using a c Set_Get_Delete_Get [OF a b c] by simp
qed

text \<open>
  C6. On a node that is not Running, \<open>Get\<close> returns \<open>(nil, false)\<close> for every key, and
  \<open>Set\<close> and \<open>Delete\<close> return an error and leave the node as it is. That error, and the
  error of every refused lifecycle transition (of any node \<open>m\<close>), contains the node's
  identity. Each operation returns its result as a value in every branch: the source has
  no panic on these paths, the error return comes before the map is touched.
\<close>

theorem not_running_errors:
  assumes "status n \<noteq> StatusRunning"
  shows "Get n key = (None, False)
         \<and> (\<exists>e. Set n key v = (Some e, n) \<and> sublist (id n) e)
         \<and> (\<exists>e. Delete n key = (Some e, n) \<and> sublist (id n) e)
         \<and> (fst (Start m) = None \<or> (\<exists>e. Start m = (Some e, m) \<and> sublist (id m) e))
         \<and> (fst (Stop m) = None \<or> (\<exists>e. Stop m = (Some e, m) \<and> sublist (id m) e))
         \<and> (fst (Suspend m) = None \<or> (\<exists>e. Suspend m = (Some e, m) \<and> sublist (id m) e))
         \<and> (fst (Resume m) = None \<or> (\<exists>e. Resume m = (Some e, m) \<and> sublist (id m) e))"
proof -
  have "Get n key = (None, False)"
    using assms by (simp add: Get_def)
  moreover have "Set n key v = (Some (''node '' @ id n @ '' is not running''), n)"
    using assms by (simp add: Set_def)
  note error_names_node [OF this]
  moreover have "Delete n key = (Some (''node '' @ id n @ '' is not running''), n)"
    using assms by (simp add: Delete_def)
  note error_names_node [OF this]
  moreover have "fst (Start m) = None \<or> (\<exists>e. Start m = (Some e, m) \<and> sublist (id m) e)"
  proof (cases "status m = StatusRunning")
    case True
    then have "Start m = (Some (''node '' @ id m @ '' is already running''), m)"
      by (simp add: Start_def)
    from error_names_node [OF this] show ?thesis ..
  next
    case False
    then show ?thesis by (simp add: Start_def)
  qed
  moreover have "fst (Stop m) = None \<or> (\<exists>e. Stop m = (Some e, m) \<and> sublist (id m) e)"
  proof (cases "status m = StatusStopped")
    case True
    then have "Stop m = (Some (''node '' @ id m @ '' is already stopped''), m)"
      by (simp add: Stop_def)
    from error_names_node [OF this] show ?thesis ..
  next
    case False
    then show ?thesis by (simp add: Stop_def)
  qed
  moreover have "fst (Suspend m) = None \<or> (\<exists>e. Suspend m = (Some e, m) \<and> sublist (id m) e)"
  proof (cases "status m = StatusRunning")
    case False
    then have "Suspend m = (Some (''node '' @ id m @ '' is not running''), m)"
      by (simp add: Suspend_def)
    from error_names_node [OF this] show ?thesis ..
  next
    case True
    then show ?thesis by (simp add: Suspend_def)
  qed
  moreover have "fst (Resume m) = None \<or> (\<exists>e. Resume m = (Some e, m) \<and> sublist (id m) e)"
  proof (cases "status m = StatusSuspended")
    case False
    then have "Resume m = (Some (''node '' @ id m @ '' is not suspended''), m)"
      by (simp add: Resume_def)
    from error_names_node [OF this] show ?thesis ..
  next
    case True
    then show ?thesis by (simp add: Resume_def)
  qed
  ultimately show ?thesis by blast
qed

theorem not_running_errors_witness:
  "status (node_New ''node-1'') \<noteq> StatusRunning
   \<and> Get (node_New ''node-1'') ''key1'' = (None, False)
   \<and> (\<exists>e. Set (node_New ''node-1'') ''key1'' (Some [1]) = (Some e, node_New ''node-1'')
          \<and> sublist ''node-1'' e)
   \<and> (\<exists>e. Delete (node_New ''node-1'') ''key1'' = (Some e, node_New ''node-1'')
          \<and> sublist ''node-1'' e)
   \<and> (\<exists>e. Stop (node_New ''node-1'') = (Some e, node_New ''node-1'') \<and> sublist ''node-1'' e)
   \<and> (\<exists>e. Resume (node_New ''node-1'') = (Some e, node_New ''node-1'') \<and> sublist ''node-1'' e)"
proof -
  have a: "status (node_New ''node-1'') \<noteq> StatusRunning"
    by (simp add: node_New_def)
  have i: "id (node_New ''node-1'') = ''node-1''"
    by (simp add: node_New_def)
  have s: "fst (Stop (node_New ''node-1'')) \<noteq> None" "fst (Resume (node_New ''node-1'')) \<noteq> None"
    by (simp_all add: Stop_def Resume_def node_New_def)
  show ?thesis
    using a s not_running_errors [OF a, of "''key1''" "Some [1]" "node_New ''node-1''"]
    by (auto simp: i)
qed

text \<open>
  C8. The lifecycle operations never touch the key-value data (nor the identity or the
  delay): on a Running node, \<open>Suspend\<close> then \<open>Resume\<close> both succeed and give back the very
  same node, and so do \<open>Stop\<close> then \<open>Start\<close>; so every key reads as before. In whatever
  state \<open>m\<close> a lifecycle operation is called, the data after it is the data before it.
\<close>

theorem lifecycle_keeps_data:
  assumes "status n = StatusRunning"
  shows "fst (Suspend n) = None \<and> Resume (snd (Suspend n)) = (None, n)
         \<and> fst (Stop n) = None \<and> Start (snd (Stop n)) = (None, n)
         \<and> Get (snd (Resume (snd (Suspend n)))) k = Get n k
         \<and> Get (snd (Start (snd (Stop n)))) k = Get n k
         \<and> data (snd (Start m)) = data m \<and> data (snd (Stop m)) = data m
         \<and> data (snd (Suspend m)) = data m \<and> data (snd (Resume m)) = data m"
  using assms
  by (simp add: Start_def Stop_def Suspend_def Resume_def Get_def)

theorem lifecycle_keeps_data_witness:
  "status (snd (Set (snd (Start (node_New ''node-1''))) ''key1'' (Some [7]))) = StatusRunning
   \<and> Get (snd (Resume (snd (Suspend (snd (Set (snd (Start (node_New ''node-1''))) ''key1'' (Some [7])))))))
        ''key1'' = (Some [7], True)
   \<and> Get (snd (Start (snd (Stop (snd (Set (snd (Start (node_New ''node-1''))) ''key1'' (Some [7])))))))
        ''key1'' = (Some [7], True)"
proof -
  let ?n = "snd (Set (snd (Start (node_New ''node-1''))) ''key1'' (Some [7]))"
  have a: "status ?n = StatusRunning"
    by (simp add: Set_def Start_def node_New_def)
  have g: "Get ?n ''key1'' = (Some [7], True)"
    by (simp add: Get_def Set_def Start_def node_New_def)
  show ?thesis
    using a g lifecycle_keeps_data [OF a, of "''key1''"] by simp
qed

text \<open>
  C9. \<open>Keys\<close> and \<open>Size\<close> read the store without looking at the status: whatever status
  \<open>s\<close> the node is put in, \<open>Keys\<close> lists every key present in the store once and no other,
  and \<open>Size\<close> is the number of keys present. Neither returns an error.
\<close>

theorem Keys_Size_any_status:
  "Keys (n\<lparr>status := s\<rparr>) = Keys n
   \<and> Size (n\<lparr>status := s\<rparr>) = Size n
   \<and> set (Keys n) = dom (DAList.lookup (data n))
   \<and> distinct (Keys n)
   \<and> Size n = card (dom (DAList.lookup (data n)))"
proof -
  have d: "distinct (Keys n)"
    by (simp add: Keys_def)
  have k: "set (Keys n) = dom (DAList.lookup (data n))"
    by (simp add: Keys_def DAList.lookup.rep_eq dom_map_of_conv_image_fst)
  have "Size n = length (Keys n)"
    by (simp add: Size_def Keys_def)
  also have "\<dots> = card (set (Keys n))"
    using d by (simp add: distinct_card)
  finally have "Size n = card (dom (DAList.lookup (data n)))"
    using k by simp
  with d k show ?thesis
    by (simp add: Keys_def Size_def)
qed

section \<open>Properties of the cluster\<close>

lemma count_loop:
  "foldl (\<lambda>count n. if P n then count + 1 else count) a ns = a + length (filter P ns)"
  by (induction ns arbitrary: a) simp_all

lemma status_partition:
  "length ns =
     length (filter (\<lambda>n. status (h n) = StatusRunning) ns)
     + length (filter (\<lambda>n. status (h n) = StatusStopped) ns)
     + length (filter (\<lambda>n. status (h n) = StatusSuspended) ns)"
proof (induction ns)
  case Nil
  show ?case by simp
next
  case (Cons n ns)
  then show ?case by (cases "status (h n)") simp_all
qed

lemma registry_size: "length (DAList.impl_of al) = card (dom (DAList.lookup al))"
proof -
  have "card (dom (DAList.lookup al)) = card (set (map fst (DAList.impl_of al)))"
    by (simp add: DAList.lookup.rep_eq dom_map_of_conv_image_fst)
  also have "\<dots> = length (map fst (DAList.impl_of al))"
    by (rule distinct_card) simp
  finally show ?thesis by simp
qed

text \<open>
  C4 (as amended). The cluster has two counting operations, \<open>RunningCount\<close> and
  \<open>StoppedCount\<close>, and none for Suspended nodes. \<open>Nodes\<close> returns as many nodes as
  \<open>Size\<close> says, which is the number of identities registered, and \<open>Size\<close> is
  \<open>RunningCount\<close> plus \<open>StoppedCount\<close> plus the number of nodes of \<open>Nodes\<close> whose status
  is Suspended.
\<close>

theorem Cluster_counts:
  "length (Cluster_Nodes c) = Cluster_Size c
   \<and> Cluster_Size c = card (dom (DAList.lookup (nodes c)))
   \<and> Cluster_Size c =
       Cluster_RunningCount h c + Cluster_StoppedCount h c
       + length (filter (\<lambda>n. status (h n) = StatusSuspended) (Cluster_Nodes c))"
proof -
  have "Cluster_Size c = length (Cluster_Nodes c)"
    by (simp add: Cluster_Size_def Cluster_Nodes_def)
  moreover have "Cluster_Size c = card (dom (DAList.lookup (nodes c)))"
    by (simp add: Cluster_Size_def registry_size)
  moreover have "Cluster_RunningCount h c =
      length (filter (\<lambda>n. status (h n) = StatusRunning) (Cluster_Nodes c))"
    by (simp add: Cluster_RunningCount_def Cluster_Nodes_def count_loop)
  moreover have "Cluster_StoppedCount h c =
      length (filter (\<lambda>n. status (h n) = StatusStopped) (Cluster_Nodes c))"
    by (simp add: Cluster_StoppedCount_def Cluster_Nodes_def count_loop)
  ultimately show ?thesis
    using status_partition [of "Cluster_Nodes c" h] by simp
qed

text \<open>
  C4 (as stated) fails: in a cluster whose only node is Suspended, \<open>Size\<close> is 1 while the
  per-status counting operations of the cluster add up to 0.
\<close>

theorem Suspended_node_not_counted:
  "status (one_suspended 0) = StatusSuspended
   \<and> Cluster_Nodes one_cluster = [0]
   \<and> Cluster_Size one_cluster = 1
   \<and> Cluster_RunningCount one_suspended one_cluster + Cluster_StoppedCount one_suspended one_cluster = 0"
  by code_simp

text \<open>
  C10. When the identity \<open>i\<close> is registered for a node that is Suspended, \<open>RemoveNode i\<close>
  returns no error, leaves every node as it was (it calls \<open>Stop\<close> only on a Running
  node), and takes \<open>i\<close> out of the registry: the removed node is still Suspended,
  \<open>GetNode i\<close> no longer finds it, and the cluster is one node smaller.
\<close>

theorem RemoveNode_Suspended:
  assumes "DAList.lookup (nodes c) i = Some n"
    and "status (h n) = StatusSuspended"
  shows "Cluster_RemoveNode h c i = (None, h, c\<lparr>nodes := DAList.delete i (nodes c)\<rparr>)
         \<and> status (fst (snd (Cluster_RemoveNode h c i)) n) = StatusSuspended
         \<and> Cluster_GetNode (snd (snd (Cluster_RemoveNode h c i))) i = (None, False)
         \<and> Suc (Cluster_Size (snd (snd (Cluster_RemoveNode h c i)))) = Cluster_Size c"
proof -
  have r: "Cluster_RemoveNode h c i = (None, h, c\<lparr>nodes := DAList.delete i (nodes c)\<rparr>)"
    using assms by (simp add: Cluster_RemoveNode_def)
  have d: "dom (DAList.lookup (DAList.delete i (nodes c))) = dom (DAList.lookup (nodes c)) - {i}"
    by simp
  have "i \<in> dom (DAList.lookup (nodes c))"
    using assms(1) by (rule domI)
  moreover have "finite (dom (DAList.lookup (nodes c)))"
    by (simp add: DAList.lookup.rep_eq finite_dom_map_of)
  ultimately have "Suc (card (dom (DAList.lookup (nodes c)) - {i})) = card (dom (DAList.lookup (nodes c)))"
    by (simp only: card_Suc_Diff1)
  then have "Suc (card (dom (DAList.lookup (DAList.delete i (nodes c)))))
      = card (dom (DAList.lookup (nodes c)))"
    by (simp only: d)
  then have s: "Suc (Cluster_Size (c\<lparr>nodes := DAList.delete i (nodes c)\<rparr>)) = Cluster_Size c"
    by (simp add: Cluster_Size_def registry_size del: DAList.lookup_delete)
  have g: "Cluster_GetNode (c\<lparr>nodes := DAList.delete i (nodes c)\<rparr>) i = (None, False)"
    by (simp add: Cluster_GetNode_def)
  show ?thesis
    unfolding r using s g assms(2) by simp
qed

theorem RemoveNode_Suspended_witness:
  "DAList.lookup (nodes one_cluster) ''node-1'' = Some 0
   \<and> status (one_suspended 0) = StatusSuspended
   \<and> fst (Cluster_RemoveNode one_suspended one_cluster ''node-1'') = None
   \<and> status (fst (snd (Cluster_RemoveNode one_suspended one_cluster ''node-1'')) 0) = StatusSuspended
   \<and> Cluster_GetNode (snd (snd (Cluster_RemoveNode one_suspended one_cluster ''node-1''))) ''node-1''
       = (None, False)
   \<and> Cluster_Size (snd (snd (Cluster_RemoveNode one_suspended one_cluster ''node-1''))) = 0"
proof -
  have a: "DAList.lookup (nodes one_cluster) ''node-1'' = Some 0"
    by code_simp
  have b: "status (one_suspended 0) = StatusSuspended"
    by code_simp
  have c: "Cluster_Size one_cluster = 1"
    by code_simp
  note r = RemoveNode_Suspended [where h = one_suspended and c = one_cluster
      and i = "''node-1''" and n = 0, OF a b]
  from r have "fst (Cluster_RemoveNode one_suspended one_cluster ''node-1'') = None"
    by (simp only: fst_conv)
  moreover from r have
    "status (fst (snd (Cluster_RemoveNode one_suspended one_cluster ''node-1'')) 0) = StatusSuspended"
    by (elim conjE)
  moreover from r have
    "Cluster_GetNode (snd (snd (Cluster_RemoveNode one_suspended one_cluster ''node-1''))) ''node-1''
       = (None, False)"
    by (elim conjE)
  moreover from r c have
    "Cluster_Size (snd (snd (Cluster_RemoveNode one_suspended one_cluster ''node-1''))) = 0"
    by (elim conjE) (simp only: Suc_inject One_nat_def)
  ultimately show ?thesis
    using a b by (intro conjI)
qed

section \<open>Properties of the metrics\<close>

lemma record_all_latencies:
  "maxLatencySamples m = 1000 \<Longrightarrow> length (latencies m) \<le> 1000 \<Longrightarrow>
   latencies (record_all m os) = take 1000 (latencies m @ success_latencies os)"
  unfolding record_all_def
proof (induction os arbitrary: m)
  case Nil
  then show ?case by simp
next
  case (Cons a os)
  show ?case
  proof (cases a)
    case (Succeeded l)
    have "maxLatencySamples (RecordSuccess m l) = 1000"
      and "length (latencies (RecordSuccess m l)) \<le> 1000"
      using Cons.prems by (simp_all add: RecordSuccess_def)
    from Cons.IH [OF this] Succeeded Cons.prems show ?thesis
      by (simp add: RecordSuccess_def take_Cons')
  next
    case (Failed l)
    have "maxLatencySamples (RecordFailure m l) = 1000"
      and "length (latencies (RecordFailure m l)) \<le> 1000"
      using Cons.prems by (simp_all add: RecordFailure_def)
    from Cons.IH [OF this] Failed show ?thesis
      by (simp add: RecordFailure_def)
  qed
qed

lemma floor_99_percent: "nat \<lfloor>(99 / 100 :: real) * real N\<rfloor> = 99 * N div 100"
proof -
  have "(99 / 100 :: real) * real N = real (99 * N) / real 100"
    by simp
  then have "\<lfloor>(99 / 100 :: real) * real N\<rfloor> = \<lfloor>real (99 * N) / real 100\<rfloor>"
    by simp
  also have "\<dots> = int (99 * N div 100)"
    by (rule floor_divide_of_nat_eq)
  finally show ?thesis by simp
qed

lemma spec_P99_index:
  "spec_P99 r = (if r = [] then 0 else sort r ! min (99 * length r div 100) (length r - 1))"
  by (simp only: spec_P99_def floor_99_percent)

lemma P99Latency_spec: "P99Latency m = spec_P99 (latencies m)"
proof (cases "latencies m = []")
  case True
  then show ?thesis by (simp add: P99Latency_def spec_P99_index)
next
  case False
  then have "0 < length (latencies m)" by simp
  then have "min (99 * length (latencies m) div 100) (length (latencies m) - 1)
      = (if 99 * length (latencies m) div 100 \<ge> length (latencies m)
         then length (latencies m) - 1 else 99 * length (latencies m) div 100)"
    by auto
  with False show ?thesis
    by (simp add: P99Latency_def spec_P99_index Let_def)
qed

text \<open>
  C7. Starting from a fresh \<open>Metrics\<close>, after any run of \<open>RecordSuccess\<close> and
  \<open>RecordFailure\<close> calls the reservoir holds the success latencies in arrival order up to
  1000 samples and none of the later ones, and \<open>P99Latency\<close> is the spec's estimate of
  that reservoir: 0 when it is empty, else the sample at index \<open>\<lfloor>0.99 \<times> N\<rfloor>\<close>, clamped to
  \<open>N - 1\<close>, of the reservoir sorted ascending. \<open>RecordFailure\<close> leaves the reservoir of any
  \<open>Metrics\<close> as it is, and \<open>P99Latency\<close> does not change the \<open>Metrics\<close> (it sorts a copy).
\<close>

theorem P99Latency_of_successes:
  "latencies (record_all (metrics_New t) os) = spec_reservoir os
   \<and> P99Latency (record_all (metrics_New t) os) = spec_P99 (spec_reservoir os)
   \<and> length (spec_reservoir os) \<le> 1000
   \<and> sorted (sort (spec_reservoir os))
   \<and> mset (sort (spec_reservoir os)) = mset (spec_reservoir os)
   \<and> spec_P99 [] = 0
   \<and> latencies (RecordFailure m l) = latencies m"
proof -
  have "latencies (record_all (metrics_New t) os) = spec_reservoir os"
    using record_all_latencies [of "metrics_New t" os]
    by (simp add: metrics_New_def spec_reservoir_def)
  then show ?thesis
    by (simp add: P99Latency_spec spec_reservoir_def spec_P99_index RecordFailure_def)
qed

section \<open>Properties of the chaos injector\<close>

lemma length_swap: "length (swap xs i j) = length xs"
  by (simp add: swap_def)

lemma mset_swap_list: "i < length xs \<Longrightarrow> j < length xs \<Longrightarrow> mset (swap xs i j) = mset xs"
  unfolding swap_def by (rule mset_swap)

lemma mset_Shuffle_from: "i < length xs \<Longrightarrow> mset (Shuffle_from i rnd xs) = mset xs"
proof (induction i arbitrary: xs)
  case 0
  show ?case by simp
next
  case (Suc i)
  have j: "rnd (Suc i) mod (Suc i + 1) < length xs"
    using Suc.prems by (simp add: less_le_trans [OF mod_less_divisor])
  have "i < length (swap xs (Suc i) (rnd (Suc i) mod (Suc i + 1)))"
    using Suc.prems by (simp add: length_swap)
  from Suc.IH [OF this] mset_swap_list [OF Suc.prems j] show ?case
    by simp
qed

lemma set_Shuffle: "set (Shuffle rnd xs) = set xs"
proof (cases xs)
  case Nil
  then show ?thesis by (simp add: Shuffle_def)
next
  case (Cons x ys)
  then have "length xs - 1 < length xs" by simp
  from mset_Shuffle_from [OF this] show ?thesis
    unfolding Shuffle_def by (rule mset_eq_setD)
qed

lemma length_Shuffle: "length (Shuffle rnd xs) = length xs"
proof (cases xs)
  case Nil
  then show ?thesis by (simp add: Shuffle_def)
next
  case (Cons x ys)
  then have "length xs - 1 < length xs" by simp
  from mset_Shuffle_from [OF this] show ?thesis
    unfolding Shuffle_def by (rule mset_eq_length)
qed

lemma selectTargets_running:
  assumes "selectTargets h c cfg rnd = Some targets"
  shows "\<forall>n \<in> set targets. status (h n) = StatusRunning"
proof
  fix n
  assume n: "n \<in> set targets"
  let ?running = "filter (\<lambda>n. status (h n) = StatusRunning) (Cluster_Nodes c)"
  from assms n obtain k where "n \<in> set (take k (Shuffle rnd ?running))"
    by (auto simp: selectTargets_def Let_def split: if_splits)
  then have "n \<in> set (Shuffle rnd ?running)"
    by (rule in_set_takeD)
  then show "status (h n) = StatusRunning"
    by (simp add: set_Shuffle)
qed

lemma selectTargets_length:
  assumes "selectTargets h c cfg rnd = Some targets"
  shows "length targets \<le> nat (TargetCount cfg)"
  using assms
  by (auto simp: selectTargets_def Let_def split: if_splits)

lemma selectTargets_returns:
  "0 \<le> TargetCount cfg \<Longrightarrow> \<exists>targets. selectTargets h c cfg rnd = Some targets"
  by (simp add: selectTargets_def Let_def)

lemma executeAttack_counts:
  assumes "executeAttack m h n t now = (m', h')"
  shows "config m' = config m \<and> attackCount m' = attackCount m
         \<and> sumByType m \<le> sumByType m' \<and> sumByType m' \<le> sumByType m + 1
         \<and> (status (h n) = StatusRunning \<longrightarrow> sumByType m' = sumByType m + 1)"
proof (cases t)
  case AttackKill
  with assms show ?thesis
    by (cases "status (h n) = StatusStopped")
       (auto simp: executeAttack_def attackKill_def Stop_def sumByType_def)
next
  case AttackSuspend
  with assms show ?thesis
    by (cases "status (h n) = StatusRunning")
       (auto simp: executeAttack_def attackSuspend_def Suspend_def sumByType_def)
next
  case AttackDelay
  with assms show ?thesis
    by (auto simp: executeAttack_def attackDelay_def sumByType_def)
qed

lemma executeAttacks_counts:
  assumes "executeAttacks m h targets t now = (m', h')"
  shows "config m' = config m \<and> attackCount m' = attackCount m
         \<and> sumByType m \<le> sumByType m' \<and> sumByType m' \<le> sumByType m + length targets"
  using assms
proof (induction targets arbitrary: m h)
  case Nil
  then show ?case by simp
next
  case (Cons n targets)
  obtain m1 h1 where a: "executeAttack m h n t now = (m1, h1)"
    by (cases "executeAttack m h n t now")
  with Cons.prems have "executeAttacks m1 h1 targets t now = (m', h')"
    by simp
  from Cons.IH [OF this] executeAttack_counts [OF a] show ?case
    by simp
qed

lemma executeAttacks_first:
  assumes "executeAttacks m h (n # targets) t now = (m', h')"
    and "status (h n) = StatusRunning"
  shows "sumByType m + 1 \<le> sumByType m'"
proof -
  obtain m1 h1 where a: "executeAttack m h n t now = (m1, h1)"
    by (cases "executeAttack m h n t now")
  with assms(1) have "executeAttacks m1 h1 targets t now = (m', h')"
    by simp
  from executeAttacks_counts [OF this] executeAttack_counts [OF a] assms(2) show ?thesis
    by simp
qed

lemma attack_counts:
  assumes "attack m h c rnd r now = Some (m', h')"
  shows "config m' = config m
         \<and> (attackCount m' = attackCount m \<and> sumByType m' = sumByType m
            \<or> attackCount m' = attackCount m + 1 \<and> sumByType m + 1 \<le> sumByType m'
              \<and> sumByType m' \<le> sumByType m + nat (TargetCount (config m)))"
proof -
  from assms obtain targets where s: "selectTargets h c (config m) rnd = Some targets"
    by (auto simp: attack_def split: option.splits)
  show ?thesis
  proof (cases targets)
    case Nil
    with assms s show ?thesis by (simp add: attack_def)
  next
    case (Cons n ns)
    obtain m1 h1 where e: "executeAttacks m h (n # ns) (selectAttackType (config m) r) now = (m1, h1)"
      by (cases "executeAttacks m h (n # ns) (selectAttackType (config m) r) now")
    with assms s Cons have m': "m' = m1\<lparr>attackCount := attackCount m1 + 1, lastAttack := now\<rparr>"
      by (simp add: attack_def)
    have "status (h n) = StatusRunning"
      using selectTargets_running [OF s] Cons by simp
    from executeAttacks_first [OF e this] executeAttacks_counts [OF e]
      selectTargets_length [OF s] Cons m'
    show ?thesis
      by (simp add: sumByType_def)
  qed
qed

lemma attack_returns:
  "0 \<le> TargetCount (config m) \<Longrightarrow> \<exists>m' h'. attack m h c rnd r now = Some (m', h')"
  using selectTargets_returns [of "config m" h c rnd]
  by (auto simp: attack_def split: prod.splits)

lemma resume_entries_counts:
  "resume_entries m h c now entries = (m', h') \<Longrightarrow>
   config m' = config m \<and> attackCount m' = attackCount m \<and> attackByType m' = attackByType m"
proof (induction entries arbitrary: m h)
  case Nil
  then show ?case by simp
next
  case (Cons e entries)
  obtain nodeID suspendTime where e: "e = (nodeID, suspendTime)"
    by (cases e)
  show ?case
  proof (cases "Sub now suspendTime \<ge> SuspendTime (config m)")
    case True
    with Cons.prems e obtain h1 where
      "resume_entries (m\<lparr>suspendedIDs := DAList.delete nodeID (suspendedIDs m)\<rparr>) h1 c now entries
         = (m', h')"
      by (auto simp: Let_def)
    from Cons.IH [OF this] show ?thesis by simp
  next
    case False
    with Cons.prems e have "resume_entries m h c now entries = (m', h')"
      by simp
    from Cons.IH [OF this] show ?thesis .
  qed
qed

lemma monkey_step_agree:
  assumes "monkey_step (m, h, c) e = Some (m', h', c')" and "counters_agree m"
  shows "counters_agree m' \<and> config m' = config m"
proof (cases e)
  case (AttackTick rnd r now)
  with assms(1) have "attack m h c rnd r now = Some (m', h')"
    by (auto split: option.splits)
  from attack_counts [OF this] assms(2) show ?thesis
    by (auto simp: counters_agree_def split: if_splits)
next
  case (ResumeTick now)
  with assms(1) have "checkAndResume m h c now = (m', h')"
    by (auto split: prod.splits)
  then have "config m' = config m \<and> attackCount m' = attackCount m \<and> attackByType m' = attackByType m"
    unfolding checkAndResume_def by (rule resume_entries_counts)
  with assms(2) show ?thesis
    by (simp add: counters_agree_def sumByType_def)
next
  case (MonkeyWorld h1 c1)
  with assms show ?thesis by simp
qed

lemma monkey_step_returns:
  "0 \<le> TargetCount (config m) \<Longrightarrow> \<exists>s'. monkey_step (m, h, c) e = Some s'"
proof (cases e)
  case (AttackTick rnd r now)
  assume "0 \<le> TargetCount (config m)"
  from attack_returns [OF this, of h c rnd r now] AttackTick show ?thesis
    by auto
next
  case (ResumeTick now)
  then show ?thesis by (simp split: prod.splits)
next
  case (MonkeyWorld h1 c1)
  then show ?thesis by simp
qed

lemma monkey_run_agree:
  "0 \<le> TargetCount (config m) \<Longrightarrow> counters_agree m \<Longrightarrow>
   \<exists>m' h' c'. monkey_run (m, h, c) es = Some (m', h', c') \<and> counters_agree m' \<and> config m' = config m"
proof (induction es arbitrary: m h c)
  case Nil
  then show ?case by simp
next
  case (Cons e es)
  from monkey_step_returns [OF Cons.prems(1), of h c e]
  obtain m1 h1 c1 where s: "monkey_step (m, h, c) e = Some (m1, h1, c1)"
    by (metis prod_cases3)
  from monkey_step_agree [OF s Cons.prems(2)]
  have a: "counters_agree m1" and c: "config m1 = config m"
    by simp_all
  from Cons.prems(1) c have "0 \<le> TargetCount (config m1)"
    by simp
  from Cons.IH [OF this a, of h1 c1] s c show ?case
    by auto
qed

text \<open>
  C3 (as amended). \<open>attack\<close> adds one to the global counter per tick that has at least
  one target, and one to the per-type counter per target attacked. So for every sequence
  of injector ticks, with anything happening to the nodes in between, a fresh injector
  (whose \<open>TargetCount\<close> is not negative) runs through without a panic and ends with
  \<open>TotalAttacks \<le> \<Sum> ByType\<close>; the two are equal when \<open>TargetCount\<close> is at most 1.
\<close>

theorem attack_counters:
  assumes "0 \<le> TargetCount cfg"
  shows "\<exists>m' h' c'. monkey_run (chaos_New cfg, h, c) es = Some (m', h', c')
           \<and> attackCount m' \<le> sumByType m'
           \<and> (TargetCount cfg \<le> 1 \<longrightarrow> attackCount m' = sumByType m')"
proof -
  have "0 \<le> TargetCount (config (chaos_New cfg))"
    using assms by (simp add: chaos_New_def)
  moreover have "counters_agree (chaos_New cfg)"
    by (simp add: counters_agree_def chaos_New_def sumByType_def)
  ultimately obtain m' h' c' where
    "monkey_run (chaos_New cfg, h, c) es = Some (m', h', c')" "counters_agree m'"
    "config m' = config (chaos_New cfg)"
    using monkey_run_agree by blast
  then show ?thesis
    by (auto simp: counters_agree_def chaos_New_def split: if_splits)
qed

theorem attack_counters_witness:
  "0 \<le> TargetCount chaos_DefaultConfig
   \<and> TargetCount chaos_DefaultConfig \<le> 1
   \<and> monkey_run (chaos_New chaos_DefaultConfig, two_running, two_cluster)
         [AttackTick zero_draws 0 1000, ResumeTick 1500, AttackTick zero_draws 1 2000] \<noteq> None
   \<and> attackCount (fst (the (monkey_run (chaos_New chaos_DefaultConfig, two_running, two_cluster)
         [AttackTick zero_draws 0 1000, ResumeTick 1500, AttackTick zero_draws 1 2000])))
       = sumByType (fst (the (monkey_run (chaos_New chaos_DefaultConfig, two_running, two_cluster)
         [AttackTick zero_draws 0 1000, ResumeTick 1500, AttackTick zero_draws 1 2000])))
   \<and> attackCount (fst (the (monkey_run (chaos_New chaos_DefaultConfig, two_running, two_cluster)
         [AttackTick zero_draws 0 1000, ResumeTick 1500, AttackTick zero_draws 1 2000]))) = 2"
proof -
  let ?es = "[AttackTick zero_draws 0 1000, ResumeTick 1500, AttackTick zero_draws 1 2000]"
  have a: "0 \<le> TargetCount chaos_DefaultConfig"
    by (simp add: chaos_DefaultConfig_def)
  have b: "TargetCount chaos_DefaultConfig \<le> 1"
    by (simp add: chaos_DefaultConfig_def)
  have c: "attackCount (fst (the (monkey_run (chaos_New chaos_DefaultConfig, two_running, two_cluster) ?es))) = 2"
    by code_simp
  from attack_counters [OF a, of two_running two_cluster ?es] b
  obtain m' h' c' where
    "monkey_run (chaos_New chaos_DefaultConfig, two_running, two_cluster) ?es = Some (m', h', c')"
    "attackCount m' = sumByType m'"
    by blast
  with a b c show ?thesis by simp
qed

text \<open>
  C3 (as stated) fails: with \<open>TargetCount\<close> 2 and two Running nodes, one tick kills both
  nodes; the global counter is 1 and the per-type counters add up to 2.
\<close>

theorem two_targets_one_attack:
  "status (two_running 0) = StatusRunning \<and> status (two_running 1) = StatusRunning
   \<and> Cluster_Nodes two_cluster = [0, 1]
   \<and> monkey_run (chaos_New (chaos_DefaultConfig\<lparr>TargetCount := 2\<rparr>), two_running, two_cluster)
         [AttackTick zero_draws 0 1000] \<noteq> None
   \<and> attackCount (fst (the (monkey_run
         (chaos_New (chaos_DefaultConfig\<lparr>TargetCount := 2\<rparr>), two_running, two_cluster)
         [AttackTick zero_draws 0 1000]))) = 1
   \<and> attackByType (fst (the (monkey_run
         (chaos_New (chaos_DefaultConfig\<lparr>TargetCount := 2\<rparr>), two_running, two_cluster)
         [AttackTick zero_draws 0 1000]))) AttackKill = 2
   \<and> sumByType (fst (the (monkey_run
         (chaos_New (chaos_DefaultConfig\<lparr>TargetCount := 2\<rparr>), two_running, two_cluster)
         [AttackTick zero_draws 0 1000]))) = 2"
  by code_simp

section \<open>Properties of the recovery supervisor\<close>

lemma pending_update:
  "pending (ns(k \<mapsto> state)) = (if 0 < RetryCount state then insert k (pending ns) else pending ns - {k})"
  by (auto simp: pending_def)

lemma pending_same:
  "ns k = Some state \<Longrightarrow> RetryCount state' = RetryCount state \<Longrightarrow> pending (ns(k \<mapsto> state')) = pending ns"
  by (auto simp: pending_def)

lemma finite_pending: "finite (dom ns) \<Longrightarrow> finite (pending ns)"
  by (rule finite_subset [of _ "dom ns"]) (auto simp: pending_def)

lemma card_pending_grows:
  assumes "finite (dom ns)"
  shows "card (pending (ns(k \<mapsto> state))) \<le> card (pending ns) + 1"
proof (cases "0 < RetryCount state")
  case True
  then show ?thesis
    using finite_pending [OF assms] by (simp add: pending_update card_insert_if)
next
  case False
  then have "card (pending (ns(k \<mapsto> state))) \<le> card (pending ns)"
    using finite_pending [OF assms] by (simp add: pending_update card_Diff_singleton_if)
  then show ?thesis by simp
qed

lemma card_pending_reset:
  assumes "finite (dom ns)" and "RetryCount state = 0"
  shows "card (pending (ns(k \<mapsto> state))) \<le> card (pending ns)"
    and "k \<in> pending ns \<Longrightarrow> card (pending (ns(k \<mapsto> state))) + 1 = card (pending ns)"
proof -
  note f = finite_pending [OF assms(1)]
  show "card (pending (ns(k \<mapsto> state))) \<le> card (pending ns)"
    using f assms(2) by (simp add: pending_update card_Diff_singleton_if)
  show "card (pending (ns(k \<mapsto> state))) + 1 = card (pending ns)" if "k \<in> pending ns"
    using f that assms(2) card_Suc_Diff1 [of "pending ns" k] by (simp add: pending_update)
qed

lemma handleRunningNode_bounded:
  assumes "recoveries_bounded m" and "nodeStates m nodeID = Some state"
    and "handleRunningNode m h n nodeID state now = (m', h')"
  shows "recoveries_bounded m' \<and> mconfig m' = mconfig m"
proof -
  have f: "finite (dom (nodeStates m))"
    using assms(1) by (simp add: recoveries_bounded_def)
  obtain state' where ns: "nodeStates m' = (nodeStates m)(nodeID \<mapsto> state')"
    and z: "RetryCount state' = 0"
    using assms(3) by (auto simp: handleRunningNode_def Let_def)
  have c: "mconfig m' = mconfig m"
    using assms(3) by (auto simp: handleRunningNode_def Let_def)
  have d: "finite (dom (nodeStates m'))"
    using f ns by simp
  show ?thesis
  proof (cases "\<not> IsRecovered state \<and> RetryCount state > 0")
    case True
    then have "nodeID \<in> pending (nodeStates m)"
      using assms(2) by (auto simp: pending_def)
    from card_pending_reset(2) [OF f z this]
    have "card (pending (nodeStates m')) + 1 = card (pending (nodeStates m))"
      by (simp only: ns)
    moreover have "stats m' = (stats m)\<lparr>SuccessRecoveries := SuccessRecoveries (stats m) + 1\<rparr>"
      using assms(3) True by (auto simp: handleRunningNode_def Let_def)
    ultimately show ?thesis
      using assms(1) c d by (simp add: recoveries_bounded_def)
  next
    case False
    from card_pending_reset(1) [OF f z]
    have "card (pending (nodeStates m')) \<le> card (pending (nodeStates m))"
      by (simp only: ns)
    moreover have "stats m' = stats m"
      using assms(3) False by (auto simp: handleRunningNode_def Let_def)
    ultimately show ?thesis
      using assms(1) c d by (simp add: recoveries_bounded_def)
  qed
qed

lemma handleStoppedNode_bounded:
  assumes "recoveries_bounded m" and "nodeStates m nodeID = Some state"
    and "status (h n) = StatusStopped"
    and "handleStoppedNode m h n nodeID state now = (m', h')"
  shows "recoveries_bounded m' \<and> mconfig m' = mconfig m"
proof -
  have f: "finite (dom (nodeStates m))"
    using assms(1) by (simp add: recoveries_bounded_def)
  have s: "Start (h n) = (None, (h n)\<lparr>status := StatusRunning\<rparr>)"
    using assms(3) by (simp add: Start_def)
  show ?thesis
  proof (cases "AutoRestart (mconfig m)")
    case False
    with assms(1,4) show ?thesis by (simp add: handleStoppedNode_def)
  next
    case restart: True
    show ?thesis
    proof (cases "IsZero (FailedAt state)")
      case True
      with restart assms(4) have m': "m' =
          m\<lparr>nodeStates := (nodeStates m)(nodeID \<mapsto> state\<lparr>FailedAt := now\<rparr>),
            stats := (stats m)\<lparr>CurrentlyFailed := CurrentlyFailed (stats m) + 1\<rparr>\<rparr>"
        by (simp add: handleStoppedNode_def)
      have "pending ((nodeStates m)(nodeID \<mapsto> state\<lparr>FailedAt := now\<rparr>)) = pending (nodeStates m)"
        using assms(2) by (rule pending_same) simp
      with assms(1) f show ?thesis
        unfolding m' by (simp add: recoveries_bounded_def)
    next
      case seen: False
      show ?thesis
      proof (cases "Sub now (FailedAt state) < RecoveryDelay (mconfig m)
                    \<or> MaxRetries (mconfig m) > 0 \<and> RetryCount state \<ge> MaxRetries (mconfig m)")
        case True
        with restart seen assms(4) have "m' = m"
          by (auto simp: handleStoppedNode_def split: if_splits)
        with assms(1) show ?thesis by simp
      next
        case False
        with restart seen assms(4) s have m': "m' =
            m\<lparr>nodeStates := (nodeStates m)
                  (nodeID \<mapsto> state\<lparr>RetryCount := RetryCount state + 1, FailedAt := now,
                                    FailedAt := 0\<rparr>),
              stats := (stats m)\<lparr>TotalRecoveries := TotalRecoveries (stats m) + 1,
                                CurrentlyFailed := CurrentlyFailed (stats m) - 1\<rparr>\<rparr>"
          by (auto simp: handleStoppedNode_def Let_def)
        let ?state' = "state\<lparr>RetryCount := RetryCount state + 1, FailedAt := now, FailedAt := 0\<rparr>"
        have "card (pending ((nodeStates m)(nodeID \<mapsto> ?state'))) \<le> card (pending (nodeStates m)) + 1"
          by (rule card_pending_grows [OF f])
        moreover have "SuccessRecoveries (stats m) + FailedRecoveries (stats m)
            + card (pending (nodeStates m)) \<le> TotalRecoveries (stats m)"
          using assms(1) by (simp add: recoveries_bounded_def)
        ultimately have "SuccessRecoveries (stats m) + FailedRecoveries (stats m)
            + card (pending ((nodeStates m)(nodeID \<mapsto> ?state'))) \<le> TotalRecoveries (stats m) + 1"
          by linarith
        with f show ?thesis
          unfolding m' by (simp add: recoveries_bounded_def)
      qed
    qed
  qed
qed

lemma handleSuspendedNode_off:
  "\<not> AutoResume (mconfig m) \<Longrightarrow> handleSuspendedNode m h n nodeID state now = (m, h)"
  by (simp add: handleSuspendedNode_def)

lemma checkNode_bounded:
  assumes "recoveries_bounded m" and "\<not> AutoResume (mconfig m)"
    and "checkNode m h n now = (m', h')"
  shows "recoveries_bounded m' \<and> mconfig m' = mconfig m"
proof -
  let ?nodeID = "ID (h n)"
  let ?state = "case nodeStates m ?nodeID of
                  Some s \<Rightarrow> s
                | None \<Rightarrow> \<lparr>LastSeen = now, FailedAt = 0, RetryCount = 0, IsRecovered = False\<rparr>"
  let ?m1 = "m\<lparr>nodeStates := (nodeStates m)(?nodeID \<mapsto> ?state)\<rparr>"
  have p: "pending (nodeStates ?m1) = pending (nodeStates m)"
    by (cases "nodeStates m ?nodeID") (auto simp: pending_def)
  have b: "recoveries_bounded ?m1"
    using assms(1) p by (simp add: recoveries_bounded_def)
  have l: "nodeStates ?m1 ?nodeID = Some ?state"
    by simp
  have a: "\<not> AutoResume (mconfig ?m1)"
    using assms(2) by simp
  show ?thesis
  proof (cases "status (h n)")
    case StatusRunning
    with assms(3) have "handleRunningNode ?m1 h n ?nodeID ?state now = (m', h')"
      by (simp add: checkNode_def Let_def)
    from handleRunningNode_bounded [OF b l this] show ?thesis by simp
  next
    case StatusStopped
    with assms(3) have "handleStoppedNode ?m1 h n ?nodeID ?state now = (m', h')"
      by (simp add: checkNode_def Let_def)
    from handleStoppedNode_bounded [OF b l StatusStopped this] show ?thesis by simp
  next
    case StatusSuspended
    with assms(3) have "handleSuspendedNode ?m1 h n ?nodeID ?state now = (m', h')"
      by (simp add: checkNode_def Let_def)
    with handleSuspendedNode_off [OF a, of h n ?nodeID ?state now] b show ?thesis by simp
  qed
qed

lemma checkNodes_bounded:
  "recoveries_bounded m \<Longrightarrow> \<not> AutoResume (mconfig m) \<Longrightarrow> checkNodes m h ns now = (m', h') \<Longrightarrow>
   recoveries_bounded m' \<and> mconfig m' = mconfig m"
proof (induction ns arbitrary: m h)
  case Nil
  then show ?case by simp
next
  case (Cons n ns)
  obtain m1 h1 where c: "checkNode m h n now = (m1, h1)"
    by (cases "checkNode m h n now")
  from checkNode_bounded [OF Cons.prems(1,2) c]
  have b: "recoveries_bounded m1" and e: "mconfig m1 = mconfig m"
    by simp_all
  from Cons.prems(2) e have a: "\<not> AutoResume (mconfig m1)"
    by simp
  from Cons.prems(3) c have "checkNodes m1 h1 ns now = (m', h')"
    by simp
  from Cons.IH [OF b a this] e show ?case by simp
qed

lemma manager_step_bounded:
  assumes "recoveries_bounded m" and "\<not> AutoResume (mconfig m)"
    and "manager_step (m, h, c) e = (m', h', c')"
  shows "recoveries_bounded m' \<and> mconfig m' = mconfig m"
proof (cases e)
  case (HealthCheckTick now)
  with assms(3) have "checkNodes m h (Cluster_Nodes c) now = (m', h')"
    by (auto simp: checkAndRecover_def split: prod.splits)
  from checkNodes_bounded [OF assms(1,2) this] show ?thesis .
next
  case (ManagerWorld h1 c1)
  with assms show ?thesis by simp
qed

lemma manager_run_bounded:
  "recoveries_bounded m \<Longrightarrow> \<not> AutoResume (mconfig m) \<Longrightarrow>
   recoveries_bounded (fst (manager_run (m, h, c) es))"
  unfolding manager_run_def
proof (induction es arbitrary: m h c)
  case Nil
  then show ?case by simp
next
  case (Cons e es)
  obtain m1 h1 c1 where s: "manager_step (m, h, c) e = (m1, h1, c1)"
    by (metis prod_cases3)
  from manager_step_bounded [OF Cons.prems s]
  have "recoveries_bounded m1" and "\<not> AutoResume (mconfig m1)"
    using Cons.prems(2) by simp_all
  from Cons.IH [OF this] s show ?case by simp
qed

text \<open>
  C2 (as amended). With resuming switched off (\<open>AutoResume\<close> false), for every sequence
  of supervisor health-check ticks, with anything happening to the nodes in between,
  \<open>TotalRecoveries \<ge> SuccessRecoveries + FailedRecoveries\<close>. Equality need not hold
  between ticks: a restart that succeeded is counted as a success only by a later tick
  that sees the node Running. (What the counters do when the supervisor resumes a
  Suspended node is not part of this statement.)
\<close>

theorem recoveries_bounded_by_total:
  assumes "\<not> AutoResume cfg"
  shows "SuccessRecoveries (stats (fst (manager_run (recovery_New cfg, h, c) es)))
         + FailedRecoveries (stats (fst (manager_run (recovery_New cfg, h, c) es)))
         \<le> TotalRecoveries (stats (fst (manager_run (recovery_New cfg, h, c) es)))"
proof -
  have "recoveries_bounded (recovery_New cfg)"
    by (simp add: recoveries_bounded_def recovery_New_def pending_def)
  moreover have "\<not> AutoResume (mconfig (recovery_New cfg))"
    using assms by (simp add: recovery_New_def)
  ultimately have "recoveries_bounded (fst (manager_run (recovery_New cfg, h, c) es))"
    by (rule manager_run_bounded)
  then show ?thesis
    by (simp add: recoveries_bounded_def)
qed

theorem recoveries_bounded_by_total_witness:
  "\<not> AutoResume (recovery_DefaultConfig\<lparr>AutoResume := False\<rparr>)
   \<and> SuccessRecoveries (stats (fst (manager_run
         (recovery_New (recovery_DefaultConfig\<lparr>AutoResume := False\<rparr>), one_stopped, one_cluster)
         [HealthCheckTick 1000000000, HealthCheckTick 2000000000, HealthCheckTick 3000000000,
          HealthCheckTick 4000000000])))
     + FailedRecoveries (stats (fst (manager_run
         (recovery_New (recovery_DefaultConfig\<lparr>AutoResume := False\<rparr>), one_stopped, one_cluster)
         [HealthCheckTick 1000000000, HealthCheckTick 2000000000, HealthCheckTick 3000000000,
          HealthCheckTick 4000000000])))
     \<le> TotalRecoveries (stats (fst (manager_run
         (recovery_New (recovery_DefaultConfig\<lparr>AutoResume := False\<rparr>), one_stopped, one_cluster)
         [HealthCheckTick 1000000000, HealthCheckTick 2000000000, HealthCheckTick 3000000000,
          HealthCheckTick 4000000000])))
   \<and> TotalRecoveries (stats (fst (manager_run
         (recovery_New (recovery_DefaultConfig\<lparr>AutoResume := False\<rparr>), one_stopped, one_cluster)
         [HealthCheckTick 1000000000, HealthCheckTick 2000000000, HealthCheckTick 3000000000,
          HealthCheckTick 4000000000]))) = 1"
proof -
  have a: "\<not> AutoResume (recovery_DefaultConfig\<lparr>AutoResume := False\<rparr>)"
    by simp
  have t: "TotalRecoveries (stats (fst (manager_run
         (recovery_New (recovery_DefaultConfig\<lparr>AutoResume := False\<rparr>), one_stopped, one_cluster)
         [HealthCheckTick 1000000000, HealthCheckTick 2000000000, HealthCheckTick 3000000000,
          HealthCheckTick 4000000000]))) = 1"
    by code_simp
  show ?thesis
    using a t recoveries_bounded_by_total [OF a, of one_stopped one_cluster
        "[HealthCheckTick 1000000000, HealthCheckTick 2000000000, HealthCheckTick 3000000000,
          HealthCheckTick 4000000000]"]
    by simp
qed

text \<open>
  C2 (as stated) fails, with the default configuration, in both of its parts.

  One Stopped node: the third tick restarts the node, and when that tick is over
  \<open>TotalRecoveries\<close> is 1 while \<open>SuccessRecoveries\<close> and \<open>FailedRecoveries\<close> are both 0;
  only the fourth tick, which sees the node Running, counts the success.

  One Suspended node: the third tick resumes the node, and \<open>handleSuspendedNode\<close> counts
  the success at once but keeps \<open>RetryCount\<close>; the fourth tick, which sees the node Running,
  counts the same recovery again in \<open>handleRunningNode\<close>. After four ticks one recovery
  was attempted and two successes are counted.
\<close>

theorem recovery_counters_disagree:
  "status (one_stopped 0) = StatusStopped
   \<and> status (one_suspended 0) = StatusSuspended
   \<and> Cluster_Nodes one_cluster = [0]
   \<and> TotalRecoveries (stats (fst (manager_run
         (recovery_New recovery_DefaultConfig, one_stopped, one_cluster)
         [HealthCheckTick 1000000000, HealthCheckTick 2000000000, HealthCheckTick 3000000000]))) = 1
   \<and> SuccessRecoveries (stats (fst (manager_run
         (recovery_New recovery_DefaultConfig, one_stopped, one_cluster)
         [HealthCheckTick 1000000000, HealthCheckTick 2000000000, HealthCheckTick 3000000000]))) = 0
   \<and> FailedRecoveries (stats (fst (manager_run
         (recovery_New recovery_DefaultConfig, one_stopped, one_cluster)
         [HealthCheckTick 1000000000, HealthCheckTick 2000000000, HealthCheckTick 3000000000]))) = 0
   \<and> SuccessRecoveries (stats (fst (manager_run
         (recovery_New recovery_DefaultConfig, one_stopped, one_cluster)
         [HealthCheckTick 1000000000, HealthCheckTick 2000000000, HealthCheckTick 3000000000,
          HealthCheckTick 4000000000]))) = 1
   \<and> TotalRecoveries (stats (fst (manager_run
         (recovery_New recovery_DefaultConfig, one_suspended, one_cluster)
         [HealthCheckTick 1000000000, HealthCheckTick 2000000000, HealthCheckTick 3000000000,
          HealthCheckTick 4000000000]))) = 1
   \<and> SuccessRecoveries (stats (fst (manager_run
         (recovery_New recovery_DefaultConfig, one_suspended, one_cluster)
         [HealthCheckTick 1000000000, HealthCheckTick 2000000000, HealthCheckTick 3000000000,
          HealthCheckTick 4000000000]))) = 2
   \<and> FailedRecoveries (stats (fst (manager_run
         (recovery_New recovery_DefaultConfig, one_suspended, one_cluster)
         [HealthCheckTick 1000000000, HealthCheckTick 2000000000, HealthCheckTick 3000000000,
          HealthCheckTick 4000000000]))) = 0"
  by code_simp

end
